theory Spec2Isabelle
  imports Complex_Main "HOL-Library.Word"
begin

unbundle bit_operations_syntax

section \<open>Bytes and slices\<close>

text \<open>
  A Go \<open>byte\<close> is an 8-bit word: \<open>+\<close> wraps, \<open>push_bit\<close> (Go's \<open><<\<close>) drops the
  bits shifted out at the top, \<open>drop_bit\<close> is the logical \<open>>>\<close>. A \<open>[]byte\<close> is a list
  of bytes; an index outside the slice is a run-time panic in Go, which the functions
  below return as \<open>None\<close>.
\<close>

type_synonym byte = "8 word"

section \<open>The frame codec (both source files, identical text)\<close>

definition cstate :: "byte list" where
  "cstate = [0x48, 0x74, 0x65, 0x6D, 0x70, 0x39, 0x39, 0x65]"

definition shuffle :: "byte list" where
  "shuffle = [2, 4, 0, 7, 1, 6, 5, 3]"

text \<open>The buffer every phase starts from: \<open>[]byte{0, 0, 0, 0, 0, 0, 0, 0}\<close>.\<close>

definition zeros8 :: "byte list" where
  "zeros8 = [0, 0, 0, 0, 0, 0, 0, 0]"

text \<open>
  \<open>for i, j := range shuffle { phase1[j] = buffer[i] }\<close>: the loop runs over the
  pairs (index, element) of \<open>shuffle\<close> and writes into the zeroed buffer.
\<close>

definition phase1 :: "byte list \<Rightarrow> byte list" where
  "phase1 buffer =
     fold (\<lambda>(i, j) p. p[unat j := buffer ! i]) (zip [0..<length shuffle] shuffle) zeros8"

text \<open>\<open>for i := range shuffle { phase2[i] = phase1[i] ^ key[i] }\<close>\<close>

definition phase2 :: "byte list \<Rightarrow> byte list \<Rightarrow> byte list" where
  "phase2 p1 key =
     fold (\<lambda>i p. p[i := (p1 ! i) XOR (key ! i)]) [0..<length shuffle] zeros8"

text \<open>
  \<open>phase3[i] = ((phase2[i] >> 3) | (phase2[(i-1+8)%8] << 5)) & 0xff\<close>. The index
  \<open>i\<close> is a Go \<open>int\<close>, so \<open>i - 1\<close> is \<open>-1\<close> at \<open>i = 0\<close> and the sum is taken in
  \<open>int\<close>; its operand is never negative, where Go's \<open>%\<close> and \<open>mod\<close> agree.
\<close>

definition prev_index :: "nat \<Rightarrow> nat" where
  "prev_index i = nat ((int i - 1 + 8) mod 8)"

definition phase3 :: "byte list \<Rightarrow> byte list" where
  "phase3 p2 =
     fold (\<lambda>i p. p[i := (drop_bit 3 (p2 ! i) OR push_bit 5 (p2 ! prev_index i)) AND 0xff])
       [0..<length shuffle] zeros8"

text \<open>\<open>ctmp[i] = ((cstate[i] >> 4) | (cstate[i] << 4)) & 0xff\<close>\<close>

definition ctmp :: "byte list" where
  "ctmp =
     fold (\<lambda>i p. p[i := (drop_bit 4 (cstate ! i) OR push_bit 4 (cstate ! i)) AND 0xff])
       [0..<length shuffle] zeros8"

text \<open>
  \<open>out[i] = (byte)(((0x100 + (int)(phase3[i]) - (int)(ctmp[i])) & (int)(0xff)))\<close>:
  the bytes are widened to \<open>int\<close> (the value stays between 1 and 511, far from the
  bounds of a 64-bit \<open>int\<close>), masked, and narrowed back to a byte.
\<close>

definition out :: "byte list \<Rightarrow> byte list" where
  "out p3 =
     fold (\<lambda>i p. p[i := word_of_int ((0x100 + uint (p3 ! i) - uint (ctmp ! i)) AND 0xff)])
       [0..<length shuffle] zeros8"

text \<open>
  \<open>decryptReading\<close> reads \<open>buffer[0..7]\<close> and \<open>key[0..7]\<close>; on a shorter slice the
  index panics (\<open>None\<close>). It writes to its own five local slices only.
\<close>

definition decryptReading :: "byte list \<Rightarrow> byte list \<Rightarrow> byte list option" where
  "decryptReading buffer key =
     (if length buffer < 8 \<or> length key < 8 then None
      else Some (out (phase3 (phase2 (phase1 buffer) key))))"

text \<open>
  \<open>isValidReading\<close>: the sum is a sum of bytes, so it wraps at 256 before the
  mask. \<open>buffer[4]\<close> is read first; the slice must hold five bytes.
\<close>

definition isValidReading :: "byte list \<Rightarrow> bool option" where
  "isValidReading buffer =
     (if length buffer < 5 then None
      else if buffer ! 4 \<noteq> 0x0D \<or> (buffer ! 0 + buffer ! 1 + buffer ! 2) AND 0xFF \<noteq> buffer ! 3
           then Some False
           else Some True)"


section \<open>The polling loop\<close>

subsection \<open>From a frame to a measurement\<close>

text \<open>
  Go's \<open>s[lo:hi]\<close>: a panic unless \<open>lo \<le> hi \<le> cap(s)\<close>. The buffers sliced here
  are made with eight bytes and never grow, so the length of the list is the capacity.
\<close>

definition slice :: "'a list \<Rightarrow> nat \<Rightarrow> nat \<Rightarrow> 'a list option" where
  "slice xs lo hi = (if lo \<le> hi \<and> hi \<le> length xs then Some (take (hi - lo) (drop lo xs)) else None)"

text \<open>
  \<open>binary.BigEndian.Uint16\<close> of the standard library:
  \<open>uint16(b[1]) | uint16(b[0])<<8\<close>, after a bounds check of \<open>b[1]\<close>.
\<close>

definition BigEndian_Uint16 :: "byte list \<Rightarrow> 16 word option" where
  "BigEndian_Uint16 b =
     (if length b < 2 then None else Some (ucast (b ! 1) OR push_bit 8 (ucast (b ! 0))))"

text \<open>
  What one pass of the loop body knows after the \<open>if skipDecryption { ... } else { ... }\<close>
  block: a run-time panic, the \<open>break\<close> with the rejected frame, or the pair
  \<open>code\<close>, \<open>value\<close>. The block has the same text in both files but for the type of
  \<open>value\<close> (\<open>int\<close> in one, \<open>int32\<close> in the other), which receives the unsigned 16-bit
  number unchanged; it is kept here as that number.
\<close>

datatype frame_result = Panicked | DecryptionFailed "byte list" | Measured byte "16 word"

text \<open>\<open>code = b[0]; value = ...(binary.BigEndian.Uint16(b[1:3]))\<close>\<close>

definition measurement :: "byte list \<Rightarrow> frame_result" where
  "measurement b =
     (if length b < 1 then Panicked
      else case slice b 1 3 of
             None \<Rightarrow> Panicked
           | Some bs \<Rightarrow> (case BigEndian_Uint16 bs of
                          None \<Rightarrow> Panicked
                        | Some v \<Rightarrow> Measured (b ! 0) v))"

definition decodeFrame :: "byte list \<Rightarrow> bool \<Rightarrow> byte list \<Rightarrow> frame_result" where
  "decodeFrame key skipDecryption buffer =
     (if skipDecryption then measurement buffer
      else case decryptReading buffer key of
             None \<Rightarrow> Panicked
           | Some decrypted \<Rightarrow>
               (case isValidReading decrypted of
                  None \<Rightarrow> Panicked
                | Some False \<Rightarrow> DecryptionFailed decrypted
                | Some True \<Rightarrow> measurement decrypted))"

subsection \<open>What the loop reads, logs and ends as\<close>

text \<open>
  The device is the list of the results of the successive \<open>io.ReadFull(source, buffer)\<close>
  calls: an error, or the eight bytes now in \<open>buffer\<close>. When the list is used up the
  loop is blocked in the next read.
\<close>

datatype read = ReadError | Frame "byte list"

text \<open>
  \<open>Running\<close>: the goroutine is still in its \<open>for\<close> loop. \<open>Stopped\<close>: the loop was left
  by \<open>break\<close>, \<open>getReadings\<close> returned and its goroutine ended, while \<open>main\<close> goes on
  serving. \<open>Exited\<close>: \<open>log.Fatal\<close> (which calls \<open>os.Exit(1)\<close>) or a run-time panic
  ended the whole process.
\<close>

datatype loop_state = Running | Stopped | Exited

datatype log_line = DecryptionFailedLine "byte list" | FatalLine

subsection \<open>co2meter\_exporter.go: the state behind a lock\<close>

text \<open>
  \<open>temperature\<close> is a \<open>float64\<close>; a finite one is kept as the real number it
  denotes. The arithmetic of \<open>float64\<close> is not modelled: the value of
  \<open>math.Round((float64(value)/16.0-273.15)*100) / 100\<close> is the parameter
  \<open>celsius\<close> of every function that evaluates that expression. The lock is about
  concurrent readers, which are not modelled either.
\<close>

record envState =
  co2 :: int
  temperature :: real

text \<open>\<open>var state envState\<close> in \<open>main\<close>: Go's zero value.\<close>

definition initial_envState :: envState where
  "initial_envState = \<lparr>co2 = 0, temperature = 0\<rparr>"

definition Co2 :: "envState \<Rightarrow> int" where
  "Co2 s = co2 s"

definition setCo2 :: "int \<Rightarrow> envState \<Rightarrow> envState" where
  "setCo2 v s = s\<lparr>co2 := v\<rparr>"

definition Temperature :: "envState \<Rightarrow> real" where
  "Temperature s = temperature s"

definition setTemperature :: "real \<Rightarrow> envState \<Rightarrow> envState" where
  "setTemperature t s = s\<lparr>temperature := t\<rparr>"

text \<open>The \<open>switch code\<close> with its two cases and no default.\<close>

definition dispatch :: "(int \<Rightarrow> real) \<Rightarrow> byte \<Rightarrow> int \<Rightarrow> envState \<Rightarrow> envState" where
  "dispatch celsius code v s =
     (if code = 0x50 then setCo2 v s
      else if code = 0x42 then setTemperature (celsius v) s
      else s)"

text \<open>One pass of the loop body; \<open>time.Sleep\<close> changes nothing that is modelled.\<close>

definition getReadings_body ::
  "(int \<Rightarrow> real) \<Rightarrow> read \<Rightarrow> byte list \<Rightarrow> envState \<Rightarrow> bool \<Rightarrow> loop_state \<times> envState \<times> log_line list" where
  "getReadings_body celsius r key s skipDecryption =
     (case r of
        ReadError \<Rightarrow> (Exited, s, [FatalLine])
      | Frame buffer \<Rightarrow>
          (case decodeFrame key skipDecryption buffer of
             Panicked \<Rightarrow> (Exited, s, [])
           | DecryptionFailed decrypted \<Rightarrow> (Stopped, s, [DecryptionFailedLine decrypted])
           | Measured code v \<Rightarrow> (Running, dispatch celsius code (uint v) s, [])))"

fun getReadings ::
  "(int \<Rightarrow> real) \<Rightarrow> read list \<Rightarrow> byte list \<Rightarrow> envState \<Rightarrow> bool \<Rightarrow> loop_state \<times> envState \<times> log_line list" where
  "getReadings celsius [] key s skipDecryption = (Running, s, [])"
| "getReadings celsius (r # source) key s skipDecryption =
     (case getReadings_body celsius r key s skipDecryption of
        (Running, s', l) \<Rightarrow>
          (case getReadings celsius source key s' skipDecryption of
             (st, s'', l') \<Rightarrow> (st, s'', l @ l'))
      | (Stopped, s', l) \<Rightarrow> (Stopped, s', l)
      | (Exited, s', l) \<Rightarrow> (Exited, s', l))"

subsection \<open>The second file: two package-level atomics\<close>

text \<open>
  \<open>var co2 atomic.Int32\<close> and \<open>var raw_temperature atomic.Int32\<close>, both zero at
  start; an \<open>int32\<close> is a 32-bit word read by \<open>sint\<close>. \<open>Co2()\<close> is \<open>float64(co2.Load())\<close>, exact for every 32-bit integer;
  \<open>Temperature()\<close> converts the stored raw value at each call.
\<close>

record atomics =
  co2_atomic :: "32 word"
  raw_temperature :: "32 word"

definition initial_atomics :: atomics where
  "initial_atomics = \<lparr>co2_atomic = 0, raw_temperature = 0\<rparr>"

definition Co2_atomic :: "atomics \<Rightarrow> real" where
  "Co2_atomic g = of_int (sint (co2_atomic g))"

definition Temperature_atomic :: "(int \<Rightarrow> real) \<Rightarrow> atomics \<Rightarrow> real" where
  "Temperature_atomic celsius g = celsius (sint (raw_temperature g))"

text \<open>\<open>value\<close> is \<open>int32(binary.BigEndian.Uint16(...))\<close>: the 16 bits, zero-extended.\<close>

definition dispatch_atomic :: "byte \<Rightarrow> 32 word \<Rightarrow> atomics \<Rightarrow> atomics" where
  "dispatch_atomic code v g =
     (if code = 0x50 then g\<lparr>co2_atomic := v\<rparr>
      else if code = 0x42 then g\<lparr>raw_temperature := v\<rparr>
      else g)"

definition getReadings_atomic_body ::
  "read \<Rightarrow> byte list \<Rightarrow> atomics \<Rightarrow> bool \<Rightarrow> loop_state \<times> atomics \<times> log_line list" where
  "getReadings_atomic_body r key g skipDecryption =
     (case r of
        ReadError \<Rightarrow> (Exited, g, [FatalLine])
      | Frame buffer \<Rightarrow>
          (case decodeFrame key skipDecryption buffer of
             Panicked \<Rightarrow> (Exited, g, [])
           | DecryptionFailed decrypted \<Rightarrow> (Stopped, g, [DecryptionFailedLine decrypted])
           | Measured code v \<Rightarrow> (Running, dispatch_atomic code (ucast v) g, [])))"

fun getReadings_atomic ::
  "read list \<Rightarrow> byte list \<Rightarrow> atomics \<Rightarrow> bool \<Rightarrow> loop_state \<times> atomics \<times> log_line list" where
  "getReadings_atomic [] key g skipDecryption = (Running, g, [])"
| "getReadings_atomic (r # source) key g skipDecryption =
     (case getReadings_atomic_body r key g skipDecryption of
        (Running, g', l) \<Rightarrow>
          (case getReadings_atomic source key g' skipDecryption of
             (st, g'', l') \<Rightarrow> (st, g'', l @ l'))
      | (Stopped, g', l) \<Rightarrow> (Stopped, g', l)
      | (Exited, g', l) \<Rightarrow> (Exited, g', l))"


section \<open>The reference transform of the specification\<close>

text \<open>
  The four stages as the specification words them, on byte values as integers between
  0 and 255, where a shift to the left loses nothing until the mask \<open>& 0xFF\<close>.
  Stage 1: a fixed permutation \<open>P\<close>, output position \<open>P[i]\<close> receives input byte \<open>i\<close>.
\<close>

definition P :: "nat list" where
  "P = [2, 4, 0, 7, 1, 6, 5, 3]"

definition position_of :: "nat \<Rightarrow> nat list \<Rightarrow> nat" where
  "position_of j xs = length (takeWhile (\<lambda>x. x \<noteq> j) xs)"

definition spec_deshuffle :: "int list \<Rightarrow> int list" where
  "spec_deshuffle raw = map (\<lambda>j. raw ! position_of j P) [0..<8]"

text \<open>Stage 2: XOR with the key, position by position.\<close>

definition spec_key_mix :: "int list \<Rightarrow> int list \<Rightarrow> int list" where
  "spec_key_mix shuffled key = map (\<lambda>(b, k). b XOR k) (zip shuffled key)"

text \<open>Stage 3: \<open>((keyMixed[i] >> 3) | (keyMixed[(i-1+8) mod 8] << 5)) & 0xFF\<close>.\<close>

definition spec_rot :: "int \<Rightarrow> int \<Rightarrow> int" where
  "spec_rot x prev = (drop_bit 3 x OR push_bit 5 prev) AND 0xFF"

definition spec_rotate_mix :: "int list \<Rightarrow> int list" where
  "spec_rotate_mix keyMixed =
     map (\<lambda>i. spec_rot (keyMixed ! i) (keyMixed ! nat ((int i - 1 + 8) mod 8))) [0..<8]"

text \<open>
  Stage 4: the constant is the ASCII bytes of \<open>Htemp99e\<close>, each nibble-swapped by
  \<open>(c>>4)|(c<<4) & 0xFF\<close> (the mask binds tighter than the \<open>|\<close>); output byte \<open>i\<close>
  is \<open>(0x100 + stage3[i] - C'[i]) & 0xFF\<close>.
\<close>

definition spec_C :: "int list" where
  "spec_C = map of_char ''Htemp99e''"

definition spec_nibble_swap :: "int \<Rightarrow> int" where
  "spec_nibble_swap c = drop_bit 4 c OR (push_bit 4 c AND 0xFF)"

definition spec_const_sub :: "int list \<Rightarrow> int list" where
  "spec_const_sub stage3 =
     map (\<lambda>i. (0x100 + stage3 ! i - map spec_nibble_swap spec_C ! i) AND 0xFF) [0..<8]"

definition spec_decode :: "int list \<Rightarrow> int list \<Rightarrow> int list" where
  "spec_decode raw key =
     spec_const_sub (spec_rotate_mix (spec_key_mix (spec_deshuffle raw) key))"

section \<open>The device side\<close>

text \<open>
  Modelled from the spec: the obfuscation the device applies to a plaintext frame. It is
  firmware, not code of this repository; the specification describes it as the inverse of
  the decoder, to be built for test fixtures: add the nibble-swapped constant, rotate the
  64-bit concatenation of the eight bytes (byte 0 the most significant) left by 3 bits,
  XOR with the key, apply the inverse of the permutation.
\<close>

definition cat64 :: "byte list \<Rightarrow> 64 word" where
  "cat64 bs = foldl (\<lambda>w b. push_bit 8 w OR ucast b) 0 bs"

definition split64 :: "64 word \<Rightarrow> byte list" where
  "split64 w = map (\<lambda>i. ucast (drop_bit (56 - 8 * i) w)) [0..<8]"

definition obfuscate :: "byte list \<Rightarrow> byte list \<Rightarrow> byte list" where
  "obfuscate F K =
     (let added = map (\<lambda>(f, c). f + c) (zip F ctmp);
          rotated = split64 (word_rotl 3 (cat64 added));
          mixed = map (\<lambda>(r, k). r XOR k) (zip rotated K)
      in map (\<lambda>i. mixed ! unat (shuffle ! i)) [0..<8])"

section \<open>The readings the loop has validated\<close>



definition reading_value :: "byte list \<Rightarrow> int" where
  "reading_value f = 256 * uint (f ! 1) + uint (f ! 2)"

section \<open>Abbreviations for the proofs\<close>

text \<open>The byte \<open>phase3\<close> writes at a position, from the byte there and the one before.\<close>

definition rotr3 :: "byte \<Rightarrow> byte \<Rightarrow> byte" where
  "rotr3 x prev = drop_bit 3 x OR push_bit 5 prev"

text \<open>
  The byte at a position after the rotation of the 64-bit word to the left by 3 bits, from
  the byte there and the next one; and the byte of a 64-bit word that starts at bit \<open>k\<close>.
\<close>

definition rotl3 :: "byte \<Rightarrow> byte \<Rightarrow> byte" where
  "rotl3 x nxt = push_bit 3 x OR drop_bit 5 nxt"

definition ext :: "nat \<Rightarrow> 64 word \<Rightarrow> byte" where
  "ext k w = ucast (drop_bit k w)"

section \<open>The codec, byte by byte\<close>

lemma and_ff_byte: "(x :: byte) AND 0xff = x"
proof -
  have "(0xff :: byte) = - 1" by simp
  then show ?thesis by (metis and.right_neutral)
qed

lemma length8E:
  assumes "length xs = 8"
  obtains x0 x1 x2 x3 x4 x5 x6 x7 where "xs = [x0, x1, x2, x3, x4, x5, x6, x7]"
proof -
  from assms have "\<exists>x0 x1 x2 x3 x4 x5 x6 x7. xs = [x0, x1, x2, x3, x4, x5, x6, x7]"
    by (auto simp: eval_nat_numeral length_Suc_conv)
  then show ?thesis using that by blast
qed

lemma ctmp_explicit: "ctmp = [0x84, 0x47, 0x56, 0xD6, 0x07, 0x93, 0x93, 0x56]"
  by (simp add: ctmp_def cstate_def shuffle_def zeros8_def upt_rec)

lemma phase1_explicit:
  "phase1 [b0, b1, b2, b3, b4, b5, b6, b7] = [b2, b4, b0, b7, b1, b6, b5, b3]"
  by (simp add: phase1_def shuffle_def zeros8_def upt_rec)

lemma phase2_explicit:
  "phase2 [a0, a1, a2, a3, a4, a5, a6, a7] [k0, k1, k2, k3, k4, k5, k6, k7] =
     [a0 XOR k0, a1 XOR k1, a2 XOR k2, a3 XOR k3, a4 XOR k4, a5 XOR k5, a6 XOR k6, a7 XOR k7]"
  by (simp add: phase2_def shuffle_def zeros8_def upt_rec)

lemma phase3_explicit:
  "phase3 [a0, a1, a2, a3, a4, a5, a6, a7] =
     [rotr3 a0 a7, rotr3 a1 a0, rotr3 a2 a1, rotr3 a3 a2,
      rotr3 a4 a3, rotr3 a5 a4, rotr3 a6 a5, rotr3 a7 a6]"
  by (simp add: phase3_def shuffle_def zeros8_def upt_rec prev_index_def and_ff_byte rotr3_def)

lemma out_byte:
  "(word_of_int ((0x100 + uint (x :: byte) - uint (c :: byte)) AND 0xff) :: byte) = x - c"
proof -
  have "(word_of_int ((0x100 + uint x - uint c) AND 0xff) :: byte) =
        word_of_int (take_bit 8 (0x100 + uint x - uint c))"
    by (simp add: take_bit_eq_mask mask_eq_exp_minus_1)
  also have "\<dots> = word_of_int (0x100 + uint x - uint c)"
    by (simp add: wi_bintr)
  also have "\<dots> = x - c" by simp
  finally show ?thesis .
qed

lemma out_explicit:
  "out [a0, a1, a2, a3, a4, a5, a6, a7] =
     [a0 - 0x84, a1 - 0x47, a2 - 0x56, a3 - 0xD6, a4 - 0x07, a5 - 0x93, a6 - 0x93, a7 - 0x56]"
  by (simp add: out_def shuffle_def zeros8_def upt_rec out_byte ctmp_explicit)

lemma decryptReading_explicit:
  "decryptReading [b0, b1, b2, b3, b4, b5, b6, b7] [k0, k1, k2, k3, k4, k5, k6, k7] =
     Some [rotr3 (b2 XOR k0) (b3 XOR k7) - 0x84, rotr3 (b4 XOR k1) (b2 XOR k0) - 0x47,
           rotr3 (b0 XOR k2) (b4 XOR k1) - 0x56, rotr3 (b7 XOR k3) (b0 XOR k2) - 0xD6,
           rotr3 (b1 XOR k4) (b7 XOR k3) - 0x07, rotr3 (b6 XOR k5) (b1 XOR k4) - 0x93,
           rotr3 (b5 XOR k6) (b6 XOR k5) - 0x93, rotr3 (b3 XOR k7) (b5 XOR k6) - 0x56]"
  by (simp add: decryptReading_def phase1_explicit phase2_explicit phase3_explicit out_explicit)

section \<open>The code against the reference transform\<close>

lemma spec_C_swapped:
  "map spec_nibble_swap spec_C = [0x84, 0x47, 0x56, 0xD6, 0x07, 0x93, 0x93, 0x56]"
  by (simp add: spec_C_def spec_nibble_swap_def)

lemma spec_deshuffle_explicit:
  "spec_deshuffle [b0, b1, b2, b3, b4, b5, b6, b7] = [b2, b4, b0, b7, b1, b6, b5, b3]"
  by (simp add: spec_deshuffle_def P_def position_of_def upt_rec)

lemma spec_key_mix_explicit:
  "spec_key_mix [a0, a1, a2, a3, a4, a5, a6, a7] [k0, k1, k2, k3, k4, k5, k6, k7] =
     [a0 XOR k0, a1 XOR k1, a2 XOR k2, a3 XOR k3, a4 XOR k4, a5 XOR k5, a6 XOR k6, a7 XOR k7]"
  by (simp add: spec_key_mix_def)

lemma spec_rotate_mix_explicit:
  "spec_rotate_mix [a0, a1, a2, a3, a4, a5, a6, a7] =
     [spec_rot a0 a7, spec_rot a1 a0, spec_rot a2 a1, spec_rot a3 a2,
      spec_rot a4 a3, spec_rot a5 a4, spec_rot a6 a5, spec_rot a7 a6]"
  by (simp add: spec_rotate_mix_def upt_rec)

lemma spec_const_sub_explicit:
  "spec_const_sub [a0, a1, a2, a3, a4, a5, a6, a7] =
     [(0x100 + a0 - 0x84) AND 0xFF, (0x100 + a1 - 0x47) AND 0xFF, (0x100 + a2 - 0x56) AND 0xFF,
      (0x100 + a3 - 0xD6) AND 0xFF, (0x100 + a4 - 0x07) AND 0xFF, (0x100 + a5 - 0x93) AND 0xFF,
      (0x100 + a6 - 0x93) AND 0xFF, (0x100 + a7 - 0x56) AND 0xFF]"
  unfolding spec_const_sub_def spec_C_swapped by (simp add: upt_rec)

lemma mask8_int: "(0xFF :: int) = mask 8"
  by (simp add: mask_eq_exp_minus_1)

lemma uint_rotr3: "uint (rotr3 x p) = spec_rot (uint x) (uint p)"
proof -
  have "uint (rotr3 x p) = drop_bit 3 (uint x) OR take_bit 8 (push_bit 5 (uint p))"
    by (simp add: rotr3_def unsigned_or_eq unsigned_drop_bit_eq unsigned_push_bit_eq bintr_uint)
  also have "\<dots> = take_bit 8 (drop_bit 3 (uint x) OR push_bit 5 (uint p))"
    by (rule bit_eqI) (auto simp: bit_simps dest: bit_imp_le_length)
  also have "\<dots> = (drop_bit 3 (uint x) OR push_bit 5 (uint p)) AND mask 8"
    by (simp only: take_bit_eq_mask)
  finally show ?thesis by (simp only: mask8_int spec_rot_def)
qed

lemma uint_sub_const: "uint ((x :: byte) - c) = (0x100 + uint x - uint c) AND 0xFF"
proof -
  have "uint (x - c) = (uint x - uint c) mod 2 ^ 8"
    by (simp add: uint_word_ariths)
  also have "\<dots> = ((uint x - uint c) + 256) mod 256"
    by (simp only: mod_add_self2) simp
  also have "\<dots> = (0x100 + uint x - uint c) mod 256"
    by (simp add: algebra_simps)
  also have "\<dots> = take_bit 8 (0x100 + uint x - uint c)"
    by (simp only: take_bit_eq_mod) simp
  also have "\<dots> = (0x100 + uint x - uint c) AND mask 8"
    by (simp only: take_bit_eq_mask)
  finally show ?thesis by (simp only: mask8_int)
qed

lemma uint_out_byte:
  "uint (rotr3 x p - c) = (0x100 + spec_rot (uint x) (uint p) - uint c) AND 0xFF"
  by (simp only: uint_sub_const uint_rotr3)

text \<open>
  C1. For every 8-byte raw frame and every 8-byte key, \<open>decryptReading\<close> returns (it does
  not panic), and the bytes it returns are, as numbers, those of the reference transform
  of the specification: permutation \<open>P\<close>, XOR with the key, the rotate-mix formula, and
  the subtraction modulo 256 of the nibble-swapped ASCII bytes of \<open>Htemp99e\<close>. The result
  is a function of the two arguments alone.
\<close>

theorem decryptReading_refines_spec:
  assumes "length raw = 8" and "length key = 8"
  shows "map_option (map uint) (decryptReading raw key) =
           Some (spec_decode (map uint raw) (map uint key))"
proof -
  from assms(1) obtain b0 b1 b2 b3 b4 b5 b6 b7
    where raw: "raw = [b0, b1, b2, b3, b4, b5, b6, b7]"
    by (rule length8E)
  from assms(2) obtain k0 k1 k2 k3 k4 k5 k6 k7
    where key: "key = [k0, k1, k2, k3, k4, k5, k6, k7]"
    by (rule length8E)
  show ?thesis
    unfolding raw key spec_decode_def
    by (simp add: decryptReading_explicit spec_deshuffle_explicit spec_key_mix_explicit
        spec_rotate_mix_explicit spec_const_sub_explicit uint_out_byte unsigned_xor_eq)
qed

theorem decryptReading_refines_spec_witness:
  "length [1, 2, 3, 4, 5, 6, 7, 8 :: byte] = 8 \<and> length [0, 0, 0, 0, 0, 0, 0, 0 :: byte] = 8 \<and>
   map_option (map uint) (decryptReading [1, 2, 3, 4, 5, 6, 7, 8] [0, 0, 0, 0, 0, 0, 0, 0]) =
     Some (spec_decode (map uint [1, 2, 3, 4, 5, 6, 7, 8 :: byte])
             (map uint [0, 0, 0, 0, 0, 0, 0, 0 :: byte]))"
proof -
  have h1: "length [1, 2, 3, 4, 5, 6, 7, 8 :: byte] = 8" by simp
  have h2: "length [0, 0, 0, 0, 0, 0, 0, 0 :: byte] = 8" by simp
  show ?thesis using h1 h2 decryptReading_refines_spec [OF h1 h2] by blast
qed

section \<open>The validity gate\<close>

text \<open>
  C3. For every 8-byte frame, \<open>isValidReading\<close> returns true if and only if byte 4 is
  \<open>0x0D\<close> and the sum of bytes 0, 1 and 2, taken as numbers, is byte 3 modulo 256.
  Both directions hold for arbitrary byte values.
\<close>

theorem isValidReading_iff:
  assumes "length buffer = 8"
  shows "isValidReading buffer =
           Some (buffer ! 4 = 0x0D \<and>
                 (unat (buffer ! 0) + unat (buffer ! 1) + unat (buffer ! 2)) mod 256 = unat (buffer ! 3))"
proof -
  have sum: "unat (buffer ! 0 + buffer ! 1 + buffer ! 2) =
             (unat (buffer ! 0) + unat (buffer ! 1) + unat (buffer ! 2)) mod 256"
    by (simp add: unat_word_ariths mod_simps)
  have "(buffer ! 0 + buffer ! 1 + buffer ! 2 = buffer ! 3) \<longleftrightarrow>
        (unat (buffer ! 0) + unat (buffer ! 1) + unat (buffer ! 2)) mod 256 = unat (buffer ! 3)"
    by (simp only: word_unat_eq_iff sum)
  with assms show ?thesis
    by (simp add: isValidReading_def and_ff_byte)
qed

theorem isValidReading_iff_witness:
  "length [0x50, 0x02, 0x0F, 0x61, 0x0D, 0, 0, 0 :: byte] = 8 \<and>
   isValidReading [0x50, 0x02, 0x0F, 0x61, 0x0D, 0, 0, 0] = Some True \<and>
   length [0xFF, 0x02, 0x0F, 0x10, 0x0D, 0, 0, 0 :: byte] = 8 \<and>
   isValidReading [0xFF, 0x02, 0x0F, 0x10, 0x0D, 0, 0, 0] = Some True \<and>
   isValidReading [0x50, 0x02, 0x0F, 0x61, 0x0E, 0, 0, 0] = Some False \<and>
   isValidReading [0x50, 0x02, 0x0F, 0x62, 0x0D, 0, 0, 0] = Some False"
proof -
  have h: "length [0x50, 0x02, 0x0F, 0x61, 0x0D, 0, 0, 0 :: byte] = 8" by simp
  have h2: "length [0xFF, 0x02, 0x0F, 0x10, 0x0D, 0, 0, 0 :: byte] = 8" by simp
  have h3: "length [0x50, 0x02, 0x0F, 0x61, 0x0E, 0, 0, 0 :: byte] = 8" by simp
  have h4: "length [0x50, 0x02, 0x0F, 0x62, 0x0D, 0, 0, 0 :: byte] = 8" by simp
  show ?thesis
    using h h2 isValidReading_iff [OF h] isValidReading_iff [OF h2]
      isValidReading_iff [OF h3] isValidReading_iff [OF h4]
    by simp
qed

section \<open>The rotation, and the decoder against the device side\<close>

lemma length_decryptReading: "decryptReading raw key = Some d \<Longrightarrow> length d = 8"
  by (auto simp: decryptReading_def out_def shuffle_def zeros8_def upt_rec split: if_splits)

lemma word_rotl3_64: "word_rotl 3 (w :: 64 word) = push_bit 3 w OR drop_bit 61 w"
proof (rule bit_word_eqI)
  fix n assume "n < LENGTH(64)"
  then have n: "n < 64" by simp
  have rot: "bit (word_rotl 3 w) n \<longleftrightarrow> bit w ((n + 61) mod 64)"
    using n by (simp add: bit_word_rotl_iff)
  have shl: "bit (push_bit 3 w) n \<longleftrightarrow> 3 \<le> n \<and> bit w (n - 3)"
    using n by (simp add: bit_push_bit_iff)
  have shr: "bit (drop_bit 61 w) n \<longleftrightarrow> bit w (61 + n)"
    by (simp add: bit_drop_bit_eq)
  show "bit (word_rotl 3 w) n \<longleftrightarrow> bit (push_bit 3 w OR drop_bit 61 w) n"
  proof (cases "n < 3")
    case True
    then have "(n + 61) mod 64 = 61 + n" by simp
    with True show ?thesis by (simp only: rot shl shr bit_or_iff) simp
  next
    case False
    then have "n + 61 = (n - 3) + 64" by simp
    then have "(n + 61) mod 64 = (n - 3) mod 64" by (simp only: mod_add_self2)
    also have "\<dots> = n - 3" using n by simp
    finally have m: "(n + 61) mod 64 = n - 3" .
    have "\<not> bit w (61 + n)" using False by (auto dest: bit_imp_le_length)
    with False show ?thesis by (simp only: rot shl shr bit_or_iff m) simp
  qed
qed

lemma cat64_explicit:
  "cat64 [a0, a1, a2, a3, a4, a5, a6, a7] =
     push_bit 56 (ucast a0) OR push_bit 48 (ucast a1) OR push_bit 40 (ucast a2) OR push_bit 32 (ucast a3)
     OR push_bit 24 (ucast a4) OR push_bit 16 (ucast a5) OR push_bit 8 (ucast a6) OR ucast a7"
  by (simp add: cat64_def ac_simps)

lemma split64_explicit:
  "split64 w = [ext 56 w, ext 48 w, ext 40 w, ext 32 w, ext 24 w, ext 16 w, ext 8 w, ext 0 w]"
  by (simp add: split64_def upt_rec ext_def)

lemma bit_byte_high: "8 \<le> m \<Longrightarrow> bit (a :: byte) m \<longleftrightarrow> False"
  by (auto dest: bit_imp_le_length)

lemma bit_word64_high: "64 \<le> m \<Longrightarrow> bit (w :: 64 word) m \<longleftrightarrow> False"
  by (auto dest: bit_imp_le_length)

lemma ext_cat64:
  "ext 56 (cat64 [a0, a1, a2, a3, a4, a5, a6, a7]) = a0"
  "ext 48 (cat64 [a0, a1, a2, a3, a4, a5, a6, a7]) = a1"
  "ext 40 (cat64 [a0, a1, a2, a3, a4, a5, a6, a7]) = a2"
  "ext 32 (cat64 [a0, a1, a2, a3, a4, a5, a6, a7]) = a3"
  "ext 24 (cat64 [a0, a1, a2, a3, a4, a5, a6, a7]) = a4"
  "ext 16 (cat64 [a0, a1, a2, a3, a4, a5, a6, a7]) = a5"
  "ext 8 (cat64 [a0, a1, a2, a3, a4, a5, a6, a7]) = a6"
  "ext 0 (cat64 [a0, a1, a2, a3, a4, a5, a6, a7]) = a7"
  unfolding cat64_explicit ext_def
  by (rule bit_word_eqI, simp add: bit_simps bit_byte_high)+

lemma ext_rotl_mid:
  assumes "8 \<le> k" and "k \<le> 56"
  shows "ext k (word_rotl 3 w) = rotl3 (ext k w) (ext (k - 8) w)"
proof (rule bit_word_eqI)
  fix n assume "n < LENGTH(8)"
  then have n: "n < 8" by simp
  have L: "bit (ext k (word_rotl 3 w)) n \<longleftrightarrow> bit w (k + n - 3)"
    using n assms by (simp add: ext_def word_rotl3_64 bit_simps bit_word64_high)
  have R: "bit (rotl3 (ext k w) (ext (k - 8) w)) n \<longleftrightarrow>
           (3 \<le> n \<and> bit w (k + (n - 3))) \<or> (n < 3 \<and> bit w (k - 8 + (5 + n)))"
    using n assms by (auto simp add: ext_def rotl3_def bit_simps)
  show "bit (ext k (word_rotl 3 w)) n \<longleftrightarrow> bit (rotl3 (ext k w) (ext (k - 8) w)) n"
  proof (cases "n < 3")
    case True
    then have "k - 8 + (5 + n) = k + n - 3" using assms by simp
    with True show ?thesis by (simp add: L R)
  next
    case False
    then have "k + (n - 3) = k + n - 3" by simp
    with False show ?thesis by (simp add: L R)
  qed
qed

lemma ext_rotl_low: "ext 0 (word_rotl 3 w) = rotl3 (ext 0 w) (ext 56 w)"
proof (rule bit_word_eqI)
  fix n assume "n < LENGTH(8)"
  then have n: "n < 8" by simp
  have L: "bit (ext 0 (word_rotl 3 w)) n \<longleftrightarrow> (3 \<le> n \<and> bit w (n - 3)) \<or> bit w (61 + n)"
    using n by (simp add: ext_def word_rotl3_64 bit_simps)
  have R: "bit (rotl3 (ext 0 w) (ext 56 w)) n \<longleftrightarrow>
           (3 \<le> n \<and> bit w (n - 3)) \<or> (n < 3 \<and> bit w (56 + (5 + n)))"
    using n by (auto simp add: ext_def rotl3_def bit_simps)
  have "56 + (5 + n) = 61 + n" by simp
  moreover have "\<not> n < 3 \<Longrightarrow> \<not> bit w (61 + n)" by (simp add: bit_word64_high)
  ultimately show "bit (ext 0 (word_rotl 3 w)) n \<longleftrightarrow> bit (rotl3 (ext 0 w) (ext 56 w)) n"
    unfolding L R by auto
qed

lemma split64_rotl_cat64:
  "split64 (word_rotl 3 (cat64 [a0, a1, a2, a3, a4, a5, a6, a7])) =
     [rotl3 a0 a1, rotl3 a1 a2, rotl3 a2 a3, rotl3 a3 a4,
      rotl3 a4 a5, rotl3 a5 a6, rotl3 a6 a7, rotl3 a7 a0]"
  by (simp add: split64_explicit ext_rotl_mid ext_rotl_low ext_cat64)

lemma rotr3_rotl3: "rotr3 (rotl3 x nxt) (rotl3 prv x) = x"
proof (rule bit_word_eqI)
  fix n assume "n < LENGTH(8)"
  then have n: "n < 8" by simp
  show "bit (rotr3 (rotl3 x nxt) (rotl3 prv x)) n \<longleftrightarrow> bit x n"
  proof (cases "n < 5")
    case True
    with n show ?thesis by (simp add: rotr3_def rotl3_def bit_simps bit_byte_high)
  next
    case False
    then have "5 + (n - 5) = n" by simp
    with False n show ?thesis by (simp add: rotr3_def rotl3_def bit_simps bit_byte_high)
  qed
qed

lemma rotl3_rotr3: "rotl3 (rotr3 x prv) (rotr3 nxt x) = x"
proof (rule bit_word_eqI)
  fix n assume "n < LENGTH(8)"
  then have n: "n < 8" by simp
  show "bit (rotl3 (rotr3 x prv) (rotr3 nxt x)) n \<longleftrightarrow> bit x n"
  proof (cases "n < 3")
    case True
    with n show ?thesis by (simp add: rotr3_def rotl3_def bit_simps bit_byte_high)
  next
    case False
    then have "3 + (n - 3) = n" by simp
    with False n show ?thesis by (simp add: rotr3_def rotl3_def bit_simps bit_byte_high)
  qed
qed

lemma obfuscate_explicit:
  "obfuscate [f0, f1, f2, f3, f4, f5, f6, f7] [k0, k1, k2, k3, k4, k5, k6, k7] =
     [rotl3 (f2 + 0x56) (f3 + 0xD6) XOR k2, rotl3 (f4 + 0x07) (f5 + 0x93) XOR k4,
      rotl3 (f0 + 0x84) (f1 + 0x47) XOR k0, rotl3 (f7 + 0x56) (f0 + 0x84) XOR k7,
      rotl3 (f1 + 0x47) (f2 + 0x56) XOR k1, rotl3 (f6 + 0x93) (f7 + 0x56) XOR k6,
      rotl3 (f5 + 0x93) (f6 + 0x93) XOR k5, rotl3 (f3 + 0xD6) (f4 + 0x07) XOR k3]"
  by (simp add: obfuscate_def ctmp_explicit split64_rotl_cat64 shuffle_def upt_rec)

lemma xor_cancel_byte: "(a XOR k) XOR k = (a :: byte)"
  by (simp add: xor.assoc)

lemma decrypt_obfuscate_explicit:
  "decryptReading (obfuscate [f0, f1, f2, f3, f4, f5, f6, f7] [k0, k1, k2, k3, k4, k5, k6, k7])
       [k0, k1, k2, k3, k4, k5, k6, k7] = Some [f0, f1, f2, f3, f4, f5, f6, f7]"
  by (simp add: obfuscate_explicit decryptReading_explicit xor_cancel_byte rotr3_rotl3)

lemma xor_rotr3_cancel: "rotl3 (rotr3 (a XOR k) p) (rotr3 n (a XOR k)) XOR k = a"
  by (simp add: rotl3_rotr3 xor.assoc)

lemma obfuscate_decrypt_explicit:
  assumes "decryptReading [b0, b1, b2, b3, b4, b5, b6, b7] [k0, k1, k2, k3, k4, k5, k6, k7] = Some d"
  shows "obfuscate d [k0, k1, k2, k3, k4, k5, k6, k7] = [b0, b1, b2, b3, b4, b5, b6, b7]"
  using assms
  by (auto simp add: decryptReading_explicit obfuscate_explicit xor_rotr3_cancel)

lemma length_obfuscate: "length (obfuscate F K) = 8"
  by (simp add: obfuscate_def Let_def)

lemma decrypt_obfuscate:
  assumes "length F = 8" and "length K = 8"
  shows "decryptReading (obfuscate F K) K = Some F"
proof -
  from assms(1) obtain f0 f1 f2 f3 f4 f5 f6 f7 where F: "F = [f0, f1, f2, f3, f4, f5, f6, f7]"
    by (rule length8E)
  from assms(2) obtain k0 k1 k2 k3 k4 k5 k6 k7 where K: "K = [k0, k1, k2, k3, k4, k5, k6, k7]"
    by (rule length8E)
  show ?thesis unfolding F K by (rule decrypt_obfuscate_explicit)
qed

lemma obfuscate_decrypt:
  assumes "length raw = 8" and "length K = 8" and "decryptReading raw K = Some d"
  shows "obfuscate d K = raw"
proof -
  from assms(1) obtain b0 b1 b2 b3 b4 b5 b6 b7 where R: "raw = [b0, b1, b2, b3, b4, b5, b6, b7]"
    by (rule length8E)
  from assms(2) obtain k0 k1 k2 k3 k4 k5 k6 k7 where K: "K = [k0, k1, k2, k3, k4, k5, k6, k7]"
    by (rule length8E)
  from assms(3) show ?thesis unfolding R K by (rule obfuscate_decrypt_explicit)
qed

text \<open>
  C2. Round trip: for every 8-byte plaintext frame \<open>F\<close> and every 8-byte key \<open>K\<close>, the
  device-side obfuscation of \<open>F\<close> under \<open>K\<close> is an 8-byte frame that
  \<open>decryptReading\<close> with the same key turns back into \<open>F\<close>, byte for byte.
\<close>

theorem decrypt_after_obfuscate:
  assumes "length F = 8" and "length K = 8"
  shows "length (obfuscate F K) = 8 \<and> decryptReading (obfuscate F K) K = Some F"
  using assms by (simp add: length_obfuscate decrypt_obfuscate)

theorem decrypt_after_obfuscate_witness:
  "length [0x50, 0x02, 0x0F, 0x61, 0x0D, 0, 0, 0 :: byte] = 8 \<and>
   length [1, 2, 3, 4, 5, 6, 7, 8 :: byte] = 8 \<and>
   obfuscate [0x50, 0x02, 0x0F, 0x61, 0x0D, 0, 0, 0] [1, 2, 3, 4, 5, 6, 7, 8] =
     [0x2A, 0xA1, 0xA3, 0xBE, 0x49, 0x9D, 0x9A, 0xBC] \<and>
   decryptReading [0x2A, 0xA1, 0xA3, 0xBE, 0x49, 0x9D, 0x9A, 0xBC] [1, 2, 3, 4, 5, 6, 7, 8] =
     Some [0x50, 0x02, 0x0F, 0x61, 0x0D, 0, 0, 0]"
proof -
  have h1: "length [0x50, 0x02, 0x0F, 0x61, 0x0D, 0, 0, 0 :: byte] = 8" by simp
  have h2: "length [1, 2, 3, 4, 5, 6, 7, 8 :: byte] = 8" by simp
  have e: "obfuscate [0x50, 0x02, 0x0F, 0x61, 0x0D, 0, 0, 0] [1, 2, 3, 4, 5, 6, 7, 8] =
     [0x2A, 0xA1, 0xA3, 0xBE, 0x49, 0x9D, 0x9A, 0xBC]"
    by (simp add: obfuscate_explicit rotl3_def)
  show ?thesis using h1 h2 e decrypt_after_obfuscate [OF h1 h2] by simp
qed

lemma inj_phase1: "inj_on phase1 {f. length f = 8}"
proof (rule inj_onI)
  fix a b :: "byte list"
  assume "a \<in> {f. length f = 8}" "b \<in> {f. length f = 8}" and eq: "phase1 a = phase1 b"
  then have la: "length a = 8" and lb: "length b = 8" by simp_all
  from la obtain a0 a1 a2 a3 a4 a5 a6 a7 where a: "a = [a0, a1, a2, a3, a4, a5, a6, a7]"
    by (rule length8E)
  from lb obtain b0 b1 b2 b3 b4 b5 b6 b7 where b: "b = [b0, b1, b2, b3, b4, b5, b6, b7]"
    by (rule length8E)
  from eq show "a = b" unfolding a b by (simp add: phase1_explicit)
qed

lemma xor_right_inj: "(a XOR k = b XOR k) \<longleftrightarrow> (a = (b :: byte))"
  by (metis xor_cancel_byte)

lemma inj_phase2: "inj_on (\<lambda>p. phase2 p key) {f. length f = 8}" if "length key = 8"
proof (rule inj_onI)
  fix a b :: "byte list"
  assume "a \<in> {f. length f = 8}" "b \<in> {f. length f = 8}" and eq: "phase2 a key = phase2 b key"
  then have la: "length a = 8" and lb: "length b = 8" by simp_all
  from la obtain a0 a1 a2 a3 a4 a5 a6 a7 where a: "a = [a0, a1, a2, a3, a4, a5, a6, a7]"
    by (rule length8E)
  from lb obtain b0 b1 b2 b3 b4 b5 b6 b7 where b: "b = [b0, b1, b2, b3, b4, b5, b6, b7]"
    by (rule length8E)
  from that obtain k0 k1 k2 k3 k4 k5 k6 k7 where k: "key = [k0, k1, k2, k3, k4, k5, k6, k7]"
    by (rule length8E)
  from eq show "a = b" unfolding a b k by (simp add: phase2_explicit xor_right_inj)
qed

lemma rotr3_inj: "rotr3 x p = rotr3 y q \<Longrightarrow> rotr3 n x = rotr3 m y \<Longrightarrow> x = y"
  by (metis rotl3_rotr3)

lemma inj_phase3: "inj_on phase3 {f. length f = 8}"
proof (rule inj_onI)
  fix a b :: "byte list"
  assume "a \<in> {f. length f = 8}" "b \<in> {f. length f = 8}" and eq: "phase3 a = phase3 b"
  then have la: "length a = 8" and lb: "length b = 8" by simp_all
  from la obtain a0 a1 a2 a3 a4 a5 a6 a7 where a: "a = [a0, a1, a2, a3, a4, a5, a6, a7]"
    by (rule length8E)
  from lb obtain b0 b1 b2 b3 b4 b5 b6 b7 where b: "b = [b0, b1, b2, b3, b4, b5, b6, b7]"
    by (rule length8E)
  from eq have e: "rotr3 a0 a7 = rotr3 b0 b7" "rotr3 a1 a0 = rotr3 b1 b0" "rotr3 a2 a1 = rotr3 b2 b1"
    "rotr3 a3 a2 = rotr3 b3 b2" "rotr3 a4 a3 = rotr3 b4 b3" "rotr3 a5 a4 = rotr3 b5 b4"
    "rotr3 a6 a5 = rotr3 b6 b5" "rotr3 a7 a6 = rotr3 b7 b6"
    unfolding a b by (simp_all add: phase3_explicit)
  have "a0 = b0" using e(1) e(2) by (rule rotr3_inj)
  moreover have "a1 = b1" using e(2) e(3) by (rule rotr3_inj)
  moreover have "a2 = b2" using e(3) e(4) by (rule rotr3_inj)
  moreover have "a3 = b3" using e(4) e(5) by (rule rotr3_inj)
  moreover have "a4 = b4" using e(5) e(6) by (rule rotr3_inj)
  moreover have "a5 = b5" using e(6) e(7) by (rule rotr3_inj)
  moreover have "a6 = b6" using e(7) e(8) by (rule rotr3_inj)
  moreover have "a7 = b7" using e(8) e(1) by (rule rotr3_inj)
  ultimately show "a = b" unfolding a b by simp
qed

lemma inj_out: "inj_on out {f. length f = 8}"
proof (rule inj_onI)
  fix a b :: "byte list"
  assume "a \<in> {f. length f = 8}" "b \<in> {f. length f = 8}" and eq: "out a = out b"
  then have la: "length a = 8" and lb: "length b = 8" by simp_all
  from la obtain a0 a1 a2 a3 a4 a5 a6 a7 where a: "a = [a0, a1, a2, a3, a4, a5, a6, a7]"
    by (rule length8E)
  from lb obtain b0 b1 b2 b3 b4 b5 b6 b7 where b: "b = [b0, b1, b2, b3, b4, b5, b6, b7]"
    by (rule length8E)
  from eq show "a = b" unfolding a b by (simp add: out_explicit)
qed

lemma inj_decryptReading:
  assumes "length key = 8"
  shows "inj_on (\<lambda>raw. decryptReading raw key) {f. length f = 8}"
proof (rule inj_onI)
  fix a b :: "byte list"
  assume "a \<in> {f. length f = 8}" "b \<in> {f. length f = 8}"
    and eq: "decryptReading a key = decryptReading b key"
  then have la: "length a = 8" and lb: "length b = 8" by simp_all
  from la assms obtain d where d: "decryptReading a key = Some d"
    by (simp add: decryptReading_def)
  have "a = obfuscate d key" using obfuscate_decrypt [OF la assms d] by simp
  moreover have "b = obfuscate d key" using obfuscate_decrypt [OF lb assms] d eq by simp
  ultimately show "a = b" by simp
qed

lemma image_decryptReading:
  assumes "length key = 8"
  shows "(\<lambda>raw. decryptReading raw key) ` {f. length f = 8} = Some ` {f. length f = 8}"
proof (rule set_eqI, rule iffI)
  fix r assume "r \<in> (\<lambda>raw. decryptReading raw key) ` {f. length f = 8}"
  then obtain raw where raw: "length raw = 8" and r: "r = decryptReading raw key" by auto
  from raw assms obtain d where d: "decryptReading raw key = Some d"
    by (simp add: decryptReading_def)
  then have "length d = 8" by (rule length_decryptReading)
  with r d show "r \<in> Some ` {f. length f = 8}" by simp
next
  fix r :: "byte list option" assume "r \<in> Some ` {f. length f = 8}"
  then obtain d :: "byte list" where d: "length d = 8" and r: "r = Some d" by auto
  have "decryptReading (obfuscate d key) key = Some d" using d assms by (rule decrypt_obfuscate)
  moreover have "obfuscate d key \<in> {f. length f = 8}" by (simp add: length_obfuscate)
  ultimately show "r \<in> (\<lambda>raw. decryptReading raw key) ` {f. length f = 8}"
    unfolding r by (metis (mono_tags, lifting) image_eqI)
qed

text \<open>
  C10. For every fixed 8-byte key, each of the four stages of \<open>decryptReading\<close> (the byte
  permutation, the XOR with the key, the rotation by 3 bits, the subtraction of the
  constant) is injective on 8-byte frames, and \<open>decryptReading\<close> is a bijection of the
  8-byte frames: distinct raw frames decode to distinct frames, and every 8-byte frame is
  the decoding of one.
\<close>

theorem decryptReading_bijection:
  assumes "length key = 8"
  shows "inj_on phase1 {f. length f = 8} \<and>
         inj_on (\<lambda>p. phase2 p key) {f. length f = 8} \<and>
         inj_on phase3 {f. length f = 8} \<and>
         inj_on out {f. length f = 8} \<and>
         inj_on (\<lambda>raw. decryptReading raw key) {f. length f = 8} \<and>
         (\<lambda>raw. decryptReading raw key) ` {f. length f = 8} = Some ` {f. length f = 8}"
  using assms inj_phase1 inj_phase2 inj_phase3 inj_out inj_decryptReading image_decryptReading
  by blast

theorem decryptReading_bijection_witness:
  "length [1, 2, 3, 4, 5, 6, 7, 8 :: byte] = 8 \<and>
   decryptReading [0, 0, 0, 0, 0, 0, 0, 0] [1, 2, 3, 4, 5, 6, 7, 8] \<noteq>
   decryptReading [0, 0, 0, 0, 0, 0, 0, 1] [1, 2, 3, 4, 5, 6, 7, 8]"
proof -
  have h: "length [1, 2, 3, 4, 5, 6, 7, 8 :: byte] = 8" by simp
  have "inj_on (\<lambda>raw. decryptReading raw [1, 2, 3, 4, 5, 6, 7, 8]) {f. length f = 8}"
    using decryptReading_bijection [OF h] by blast
  then have "decryptReading [0, 0, 0, 0, 0, 0, 0, 0] [1, 2, 3, 4, 5, 6, 7, 8] \<noteq>
             decryptReading [0, 0, 0, 0, 0, 0, 0, 1] [1, 2, 3, 4, 5, 6, 7, 8]"
    by (auto dest!: inj_onD [where x = "[0, 0, 0, 0, 0, 0, 0, 0]" and y = "[0, 0, 0, 0, 0, 0, 0, 1]"])
  with h show ?thesis by blast
qed

section \<open>The polling loop, pass by pass\<close>

lemma uint_ucast_byte16: "uint (ucast (x :: byte) :: 16 word) = uint x"
  by (simp add: uint_up_ucast is_up)

lemma uint_be16:
  "uint ((ucast (lo :: byte) OR push_bit 8 (ucast (hi :: byte))) :: 16 word) = 256 * uint hi + uint lo"
proof -
  have "uint ((ucast lo OR push_bit 8 (ucast hi)) :: 16 word) =
        uint lo OR take_bit 16 (push_bit 8 (uint hi))"
    by (simp add: unsigned_or_eq unsigned_push_bit_eq uint_ucast_byte16)
  also have "take_bit 16 (push_bit 8 (uint hi)) = push_bit 8 (uint hi)"
    by (rule bit_eqI) (auto simp: bit_simps dest: bit_imp_le_length)
  also have "uint lo OR push_bit 8 (uint hi) = uint lo + push_bit 8 (uint hi)"
  proof (rule disjunctive_add_eq_or [symmetric])
    show "uint lo AND push_bit 8 (uint hi) = 0"
      by (rule bit_eqI) (auto simp: bit_simps dest: bit_imp_le_length)
  qed
  finally show ?thesis by (simp add: push_bit_eq_mult)
qed

lemma measurement_8:
  assumes "length f = 8"
  shows "\<exists>v. measurement f = Measured (f ! 0) v \<and> uint v = 256 * uint (f ! 1) + uint (f ! 2)"
proof -
  from assms obtain f0 f1 f2 f3 f4 f5 f6 f7 where f: "f = [f0, f1, f2, f3, f4, f5, f6, f7]"
    by (rule length8E)
  show ?thesis unfolding f
    by (simp add: measurement_def slice_def BigEndian_Uint16_def uint_be16)
qed

lemma uint_ucast_16_32: "uint (ucast (v :: 16 word) :: 32 word) = uint v"
  by (simp add: uint_up_ucast is_up)

lemma sint_ucast_16_32: "sint (ucast (v :: 16 word) :: 32 word) = uint v"
proof -
  have "uint v < 2 ^ 16" using uint_bounded [of v] by simp
  then have b: "uint v < 2 ^ 31" by simp
  have "sint (ucast v :: 32 word) = signed_take_bit 31 (uint (ucast v :: 32 word))"
    by (simp add: sint_uint)
  also have "\<dots> = signed_take_bit 31 (uint v)" by (simp only: uint_ucast_16_32)
  also have "\<dots> = uint v"
  proof (rule signed_take_bit_int_eq_self)
    have "- (2 ^ 31) \<le> (0 :: int)" by simp
    also have "0 \<le> uint v" by (rule uint_ge_0)
    finally show "- (2 ^ 31) \<le> uint v" .
    show "uint v < 2 ^ 31" by (rule b)
  qed
  finally show ?thesis .
qed

lemma measurement_value:
  assumes "length f = 8"
  shows "\<exists>v. measurement f = Measured (f ! 0) v \<and> uint v = reading_value f"
  using measurement_8 [OF assms] by (simp add: reading_value_def)

lemma decodeFrame_skip:
  assumes "length buffer = 8"
  shows "\<exists>v. decodeFrame key True buffer = Measured (buffer ! 0) v \<and> uint v = reading_value buffer"
  using measurement_value [OF assms] by (simp add: decodeFrame_def)

lemma decodeFrame_valid:
  assumes "decryptReading buffer key = Some d" and "isValidReading d = Some True"
  shows "\<exists>v. decodeFrame key False buffer = Measured (d ! 0) v \<and> uint v = reading_value d"
  using measurement_value [OF length_decryptReading [OF assms(1)]] assms
  by (simp add: decodeFrame_def)

lemma decodeFrame_invalid:
  assumes "decryptReading buffer key = Some d" and "isValidReading d = Some False"
  shows "decodeFrame key False buffer = DecryptionFailed d"
  using assms by (simp add: decodeFrame_def)

lemma decodeFrame_dispatched:
  assumes "length buffer = 8"
    and "(skipDecryption \<and> f = buffer) \<or>
         (\<not> skipDecryption \<and> decryptReading buffer key = Some f \<and> isValidReading f = Some True)"
  shows "\<exists>v. decodeFrame key skipDecryption buffer = Measured (f ! 0) v \<and> uint v = reading_value f"
  using assms decodeFrame_skip [of buffer key] decodeFrame_valid [of buffer key f] by auto

lemma getReadings_append:
  "getReadings celsius (xs @ ys) key s skip =
     (case getReadings celsius xs key s skip of
        (Running, s', l) \<Rightarrow>
          (case getReadings celsius ys key s' skip of (st, s'', l') \<Rightarrow> (st, s'', l @ l'))
      | (Stopped, s', l) \<Rightarrow> (Stopped, s', l)
      | (Exited, s', l) \<Rightarrow> (Exited, s', l))"
proof (induction xs arbitrary: s)
  case Nil
  show ?case by (simp split: prod.splits)
next
  case (Cons r xs)
  obtain st s1 l1 where b: "getReadings_body celsius r key s skip = (st, s1, l1)"
    by (cases "getReadings_body celsius r key s skip") auto
  show ?case
  proof (cases st)
    case Running
    obtain st2 s2 l2 where x: "getReadings celsius xs key s1 skip = (st2, s2, l2)"
      by (cases "getReadings celsius xs key s1 skip") auto
    show ?thesis
      using b Running x Cons.IH [of s1]
      by (cases st2) (auto split: prod.splits)
  next
    case Stopped
    with b show ?thesis by simp
  next
    case Exited
    with b show ?thesis by simp
  qed
qed

lemma getReadings_atomic_append:
  "getReadings_atomic (xs @ ys) key g skip =
     (case getReadings_atomic xs key g skip of
        (Running, g', l) \<Rightarrow>
          (case getReadings_atomic ys key g' skip of (st, g'', l') \<Rightarrow> (st, g'', l @ l'))
      | (Stopped, g', l) \<Rightarrow> (Stopped, g', l)
      | (Exited, g', l) \<Rightarrow> (Exited, g', l))"
proof (induction xs arbitrary: g)
  case Nil
  show ?case by (simp split: prod.splits)
next
  case (Cons r xs)
  obtain st g1 l1 where b: "getReadings_atomic_body r key g skip = (st, g1, l1)"
    by (cases "getReadings_atomic_body r key g skip") auto
  show ?case
  proof (cases st)
    case Running
    obtain st2 g2 l2 where x: "getReadings_atomic xs key g1 skip = (st2, g2, l2)"
      by (cases "getReadings_atomic xs key g1 skip") auto
    show ?thesis
      using b Running x Cons.IH [of g1]
      by (cases st2) (auto split: prod.splits)
  next
    case Stopped
    with b show ?thesis by simp
  next
    case Exited
    with b show ?thesis by simp
  qed
qed

lemma decrypt_good_co2:
  "decryptReading [0x2A, 0xA1, 0xA3, 0xBE, 0x49, 0x9D, 0x9A, 0xBC] [1, 2, 3, 4, 5, 6, 7, 8] =
     Some [0x50, 0x02, 0x0F, 0x61, 0x0D, 0, 0, 0]"
  by (simp add: decryptReading_explicit rotr3_def)

lemma decrypt_good_temperature:
  "decryptReading [0x78, 0xA1, 0x33, 0xBE, 0xCE, 0x9D, 0x9A, 0x1C] [1, 2, 3, 4, 5, 6, 7, 8] =
     Some [0x42, 0x12, 0x39, 0x8D, 0x0D, 0, 0, 0]"
  by (simp add: decryptReading_explicit rotr3_def)

lemma decrypt_bad_checksum:
  "decryptReading [0x2A, 0xA1, 0xA3, 0xBE, 0x49, 0x9D, 0x9A, 0xC4] [1, 2, 3, 4, 5, 6, 7, 8] =
     Some [0x50, 0x02, 0x0F, 0x62, 0x0D, 0, 0, 0]"
  by (simp add: decryptReading_explicit rotr3_def)

lemma measurement_co2: "measurement [0x50, 0x02, 0x0F, b3, b4, b5, b6, b7] = Measured 0x50 527"
  by (simp add: measurement_def slice_def BigEndian_Uint16_def)

lemma run_good_co2:
  "getReadings celsius [Frame [0x2A, 0xA1, 0xA3, 0xBE, 0x49, 0x9D, 0x9A, 0xBC]] [1, 2, 3, 4, 5, 6, 7, 8]
     initial_envState False = (Running, \<lparr>co2 = 527, temperature = 0\<rparr>, [])"
  by (simp add: getReadings_body_def decodeFrame_def decrypt_good_co2 isValidReading_def
      measurement_co2 dispatch_def setCo2_def initial_envState_def)

lemma run_good_co2_atomic:
  "getReadings_atomic [Frame [0x2A, 0xA1, 0xA3, 0xBE, 0x49, 0x9D, 0x9A, 0xBC]] [1, 2, 3, 4, 5, 6, 7, 8]
     initial_atomics False = (Running, \<lparr>co2_atomic = 527, raw_temperature = 0\<rparr>, [])"
  by (simp add: getReadings_atomic_body_def decodeFrame_def decrypt_good_co2 isValidReading_def
      measurement_co2 dispatch_atomic_def initial_atomics_def)


text \<open>
  C4. With decryption enabled, a frame whose decoding fails \<open>isValidReading\<close> makes the
  loop log one warning and leave by \<open>break\<close>: the goroutine stops and the process does
  not exit; the state is what it was before that pass, whatever the device would have
  delivered afterwards. A failed read at the same point ends the whole process instead.
  This holds for both files.
\<close>

theorem invalid_frame_stops_loop_only:
  assumes "getReadings celsius pre key s0 False = (Running, s, l)"
    and "getReadings_atomic pre key g0 False = (Running, g, m)"
    and "decryptReading buffer key = Some d"
    and "isValidReading d = Some False"
  shows "getReadings celsius (pre @ Frame buffer # rest) key s0 False =
           (Stopped, s, l @ [DecryptionFailedLine d]) \<and>
         getReadings celsius (pre @ ReadError # rest) key s0 False = (Exited, s, l @ [FatalLine]) \<and>
         getReadings_atomic (pre @ Frame buffer # rest) key g0 False =
           (Stopped, g, m @ [DecryptionFailedLine d]) \<and>
         getReadings_atomic (pre @ ReadError # rest) key g0 False = (Exited, g, m @ [FatalLine])"
  using assms decodeFrame_invalid [OF assms(3) assms(4)]
  by (simp add: getReadings_append getReadings_atomic_append getReadings_body_def
      getReadings_atomic_body_def)

theorem invalid_frame_stops_loop_only_witness:
  "getReadings real_of_int [Frame [0x2A, 0xA1, 0xA3, 0xBE, 0x49, 0x9D, 0x9A, 0xBC]]
     [1, 2, 3, 4, 5, 6, 7, 8] initial_envState False = (Running, \<lparr>co2 = 527, temperature = 0\<rparr>, []) \<and>
   getReadings_atomic [Frame [0x2A, 0xA1, 0xA3, 0xBE, 0x49, 0x9D, 0x9A, 0xBC]]
     [1, 2, 3, 4, 5, 6, 7, 8] initial_atomics False =
     (Running, \<lparr>co2_atomic = 527, raw_temperature = 0\<rparr>, []) \<and>
   decryptReading [0x2A, 0xA1, 0xA3, 0xBE, 0x49, 0x9D, 0x9A, 0xC4] [1, 2, 3, 4, 5, 6, 7, 8] =
     Some [0x50, 0x02, 0x0F, 0x62, 0x0D, 0, 0, 0] \<and>
   isValidReading [0x50, 0x02, 0x0F, 0x62, 0x0D, 0, 0, 0] = Some False \<and>
   getReadings real_of_int
     ([Frame [0x2A, 0xA1, 0xA3, 0xBE, 0x49, 0x9D, 0x9A, 0xBC]] @
      Frame [0x2A, 0xA1, 0xA3, 0xBE, 0x49, 0x9D, 0x9A, 0xC4] #
      [Frame [0x78, 0xA1, 0x33, 0xBE, 0xCE, 0x9D, 0x9A, 0x1C]])
     [1, 2, 3, 4, 5, 6, 7, 8] initial_envState False =
     (Stopped, \<lparr>co2 = 527, temperature = 0\<rparr>,
      [DecryptionFailedLine [0x50, 0x02, 0x0F, 0x62, 0x0D, 0, 0, 0]]) \<and>
   getReadings real_of_int
     ([Frame [0x2A, 0xA1, 0xA3, 0xBE, 0x49, 0x9D, 0x9A, 0xBC]] @
      ReadError # [Frame [0x78, 0xA1, 0x33, 0xBE, 0xCE, 0x9D, 0x9A, 0x1C]])
     [1, 2, 3, 4, 5, 6, 7, 8] initial_envState False =
     (Exited, \<lparr>co2 = 527, temperature = 0\<rparr>, [FatalLine]) \<and>
   getReadings_atomic
     ([Frame [0x2A, 0xA1, 0xA3, 0xBE, 0x49, 0x9D, 0x9A, 0xBC]] @
      Frame [0x2A, 0xA1, 0xA3, 0xBE, 0x49, 0x9D, 0x9A, 0xC4] #
      [Frame [0x78, 0xA1, 0x33, 0xBE, 0xCE, 0x9D, 0x9A, 0x1C]])
     [1, 2, 3, 4, 5, 6, 7, 8] initial_atomics False =
     (Stopped, \<lparr>co2_atomic = 527, raw_temperature = 0\<rparr>,
      [DecryptionFailedLine [0x50, 0x02, 0x0F, 0x62, 0x0D, 0, 0, 0]])"
proof -
  have h1: "getReadings real_of_int [Frame [0x2A, 0xA1, 0xA3, 0xBE, 0x49, 0x9D, 0x9A, 0xBC]]
     [1, 2, 3, 4, 5, 6, 7, 8] initial_envState False = (Running, \<lparr>co2 = 527, temperature = 0\<rparr>, [])"
    by (rule run_good_co2)
  have h2: "getReadings_atomic [Frame [0x2A, 0xA1, 0xA3, 0xBE, 0x49, 0x9D, 0x9A, 0xBC]]
     [1, 2, 3, 4, 5, 6, 7, 8] initial_atomics False =
     (Running, \<lparr>co2_atomic = 527, raw_temperature = 0\<rparr>, [])"
    by (rule run_good_co2_atomic)
  have h3: "decryptReading [0x2A, 0xA1, 0xA3, 0xBE, 0x49, 0x9D, 0x9A, 0xC4] [1, 2, 3, 4, 5, 6, 7, 8] =
     Some [0x50, 0x02, 0x0F, 0x62, 0x0D, 0, 0, 0]"
    by (rule decrypt_bad_checksum)
  have h4: "isValidReading [0x50, 0x02, 0x0F, 0x62, 0x0D, 0, 0, 0] = Some False"
    by (simp add: isValidReading_def)
  from invalid_frame_stops_loop_only [OF h1 h2 h3 h4,
      of "[Frame [0x78, 0xA1, 0x33, 0xBE, 0xCE, 0x9D, 0x9A, 0x1C]]"]
  have c: "getReadings real_of_int
     ([Frame [0x2A, 0xA1, 0xA3, 0xBE, 0x49, 0x9D, 0x9A, 0xBC]] @
      Frame [0x2A, 0xA1, 0xA3, 0xBE, 0x49, 0x9D, 0x9A, 0xC4] #
      [Frame [0x78, 0xA1, 0x33, 0xBE, 0xCE, 0x9D, 0x9A, 0x1C]])
     [1, 2, 3, 4, 5, 6, 7, 8] initial_envState False =
     (Stopped, \<lparr>co2 = 527, temperature = 0\<rparr>,
      [] @ [DecryptionFailedLine [0x50, 0x02, 0x0F, 0x62, 0x0D, 0, 0, 0]]) \<and>
   getReadings real_of_int
     ([Frame [0x2A, 0xA1, 0xA3, 0xBE, 0x49, 0x9D, 0x9A, 0xBC]] @
      ReadError # [Frame [0x78, 0xA1, 0x33, 0xBE, 0xCE, 0x9D, 0x9A, 0x1C]])
     [1, 2, 3, 4, 5, 6, 7, 8] initial_envState False =
     (Exited, \<lparr>co2 = 527, temperature = 0\<rparr>, [] @ [FatalLine]) \<and>
   getReadings_atomic
     ([Frame [0x2A, 0xA1, 0xA3, 0xBE, 0x49, 0x9D, 0x9A, 0xBC]] @
      Frame [0x2A, 0xA1, 0xA3, 0xBE, 0x49, 0x9D, 0x9A, 0xC4] #
      [Frame [0x78, 0xA1, 0x33, 0xBE, 0xCE, 0x9D, 0x9A, 0x1C]])
     [1, 2, 3, 4, 5, 6, 7, 8] initial_atomics False =
     (Stopped, \<lparr>co2_atomic = 527, raw_temperature = 0\<rparr>,
      [] @ [DecryptionFailedLine [0x50, 0x02, 0x0F, 0x62, 0x0D, 0, 0, 0]]) \<and>
   getReadings_atomic
     ([Frame [0x2A, 0xA1, 0xA3, 0xBE, 0x49, 0x9D, 0x9A, 0xBC]] @
      ReadError # [Frame [0x78, 0xA1, 0x33, 0xBE, 0xCE, 0x9D, 0x9A, 0x1C]])
     [1, 2, 3, 4, 5, 6, 7, 8] initial_atomics False =
     (Exited, \<lparr>co2_atomic = 527, raw_temperature = 0\<rparr>, [] @ [FatalLine])" .
  have n: "[] @ [x] = [x]" for x :: log_line by simp
  from c have c': "getReadings real_of_int
     ([Frame [0x2A, 0xA1, 0xA3, 0xBE, 0x49, 0x9D, 0x9A, 0xBC]] @
      Frame [0x2A, 0xA1, 0xA3, 0xBE, 0x49, 0x9D, 0x9A, 0xC4] #
      [Frame [0x78, 0xA1, 0x33, 0xBE, 0xCE, 0x9D, 0x9A, 0x1C]])
     [1, 2, 3, 4, 5, 6, 7, 8] initial_envState False =
     (Stopped, \<lparr>co2 = 527, temperature = 0\<rparr>,
      [DecryptionFailedLine [0x50, 0x02, 0x0F, 0x62, 0x0D, 0, 0, 0]]) \<and>
   getReadings real_of_int
     ([Frame [0x2A, 0xA1, 0xA3, 0xBE, 0x49, 0x9D, 0x9A, 0xBC]] @
      ReadError # [Frame [0x78, 0xA1, 0x33, 0xBE, 0xCE, 0x9D, 0x9A, 0x1C]])
     [1, 2, 3, 4, 5, 6, 7, 8] initial_envState False =
     (Exited, \<lparr>co2 = 527, temperature = 0\<rparr>, [FatalLine]) \<and>
   getReadings_atomic
     ([Frame [0x2A, 0xA1, 0xA3, 0xBE, 0x49, 0x9D, 0x9A, 0xBC]] @
      Frame [0x2A, 0xA1, 0xA3, 0xBE, 0x49, 0x9D, 0x9A, 0xC4] #
      [Frame [0x78, 0xA1, 0x33, 0xBE, 0xCE, 0x9D, 0x9A, 0x1C]])
     [1, 2, 3, 4, 5, 6, 7, 8] initial_atomics False =
     (Stopped, \<lparr>co2_atomic = 527, raw_temperature = 0\<rparr>,
      [DecryptionFailedLine [0x50, 0x02, 0x0F, 0x62, 0x0D, 0, 0, 0]])"
    unfolding n by blast
  from h1 h2 h3 h4 c' show ?thesis by blast
qed

text \<open>
  C5. Kind dispatch: let \<open>f\<close> be the frame a pass of the loop dispatches on, the raw frame
  when decryption is skipped and the validated decoded frame otherwise. If its kind code
  is \<open>0x50\<close> the CO2 field becomes the frame's value and the temperature field keeps its
  value; if it is \<open>0x42\<close> the temperature field is set from the frame's value and the CO2
  field keeps its value; for every other code the state is unchanged. This holds for every
  prior state and for both files.
\<close>

theorem kind_dispatch:
  assumes "length buffer = 8"
    and "(skipDecryption \<and> f = buffer) \<or>
         (\<not> skipDecryption \<and> decryptReading buffer key = Some f \<and> isValidReading f = Some True)"
  shows "\<exists>s' g'.
           getReadings_body celsius (Frame buffer) key s skipDecryption = (Running, s', []) \<and>
           getReadings_atomic_body (Frame buffer) key g skipDecryption = (Running, g', []) \<and>
           (f ! 0 = 0x50 \<longrightarrow>
              co2 s' = reading_value f \<and> temperature s' = temperature s \<and>
              sint (co2_atomic g') = reading_value f \<and> raw_temperature g' = raw_temperature g) \<and>
           (f ! 0 = 0x42 \<longrightarrow>
              temperature s' = celsius (reading_value f) \<and> co2 s' = co2 s \<and>
              sint (raw_temperature g') = reading_value f \<and> co2_atomic g' = co2_atomic g) \<and>
           (f ! 0 \<noteq> 0x50 \<and> f ! 0 \<noteq> 0x42 \<longrightarrow> s' = s \<and> g' = g)"
proof -
  from decodeFrame_dispatched [OF assms] obtain v
    where d: "decodeFrame key skipDecryption buffer = Measured (f ! 0) v"
      and v: "uint v = reading_value f"
    by blast
  have a: "sint (ucast v :: 32 word) = reading_value f"
    using v by (simp add: sint_ucast_16_32)
  show ?thesis
    using d v a
    by (simp add: getReadings_body_def getReadings_atomic_body_def dispatch_def
        dispatch_atomic_def setCo2_def setTemperature_def)
qed

theorem kind_dispatch_witness:
  "length [0x50, 0x02, 0x0F, 0xAA, 0xBB, 0xCC, 0xDD, 0xEE :: byte] = 8 \<and>
   co2 (fst (snd (getReadings_body real_of_int (Frame [0x50, 0x02, 0x0F, 0xAA, 0xBB, 0xCC, 0xDD, 0xEE])
                    [1, 2, 3, 4, 5, 6, 7, 8] \<lparr>co2 = 400, temperature = 21\<rparr> True))) = 527 \<and>
   temperature (fst (snd (getReadings_body real_of_int (Frame [0x50, 0x02, 0x0F, 0xAA, 0xBB, 0xCC, 0xDD, 0xEE])
                    [1, 2, 3, 4, 5, 6, 7, 8] \<lparr>co2 = 400, temperature = 21\<rparr> True))) = 21 \<and>
   length [0x78, 0xA1, 0x33, 0xBE, 0xCE, 0x9D, 0x9A, 0x1C :: byte] = 8 \<and>
   decryptReading [0x78, 0xA1, 0x33, 0xBE, 0xCE, 0x9D, 0x9A, 0x1C] [1, 2, 3, 4, 5, 6, 7, 8] =
     Some [0x42, 0x12, 0x39, 0x8D, 0x0D, 0, 0, 0] \<and>
   isValidReading [0x42, 0x12, 0x39, 0x8D, 0x0D, 0, 0, 0] = Some True \<and>
   sint (raw_temperature (fst (snd (getReadings_atomic_body (Frame [0x78, 0xA1, 0x33, 0xBE, 0xCE, 0x9D, 0x9A, 0x1C])
                    [1, 2, 3, 4, 5, 6, 7, 8] \<lparr>co2_atomic = 400, raw_temperature = 4700\<rparr> False)))) = 4665 \<and>
   co2_atomic (fst (snd (getReadings_atomic_body (Frame [0x78, 0xA1, 0x33, 0xBE, 0xCE, 0x9D, 0x9A, 0x1C])
                    [1, 2, 3, 4, 5, 6, 7, 8] \<lparr>co2_atomic = 400, raw_temperature = 4700\<rparr> False))) = 400"
proof -
  have l1: "length [0x50, 0x02, 0x0F, 0xAA, 0xBB, 0xCC, 0xDD, 0xEE :: byte] = 8" by simp
  have m1: "(True \<and> [0x50, 0x02, 0x0F, 0xAA, 0xBB, 0xCC, 0xDD, 0xEE :: byte] =
               [0x50, 0x02, 0x0F, 0xAA, 0xBB, 0xCC, 0xDD, 0xEE]) \<or>
            (\<not> True \<and> decryptReading [0x50, 0x02, 0x0F, 0xAA, 0xBB, 0xCC, 0xDD, 0xEE] [1, 2, 3, 4, 5, 6, 7, 8] =
               Some [0x50, 0x02, 0x0F, 0xAA, 0xBB, 0xCC, 0xDD, 0xEE] \<and>
             isValidReading [0x50, 0x02, 0x0F, 0xAA, 0xBB, 0xCC, 0xDD, 0xEE] = Some True)"
    by simp
  have l2: "length [0x78, 0xA1, 0x33, 0xBE, 0xCE, 0x9D, 0x9A, 0x1C :: byte] = 8" by simp
  have d2: "decryptReading [0x78, 0xA1, 0x33, 0xBE, 0xCE, 0x9D, 0x9A, 0x1C] [1, 2, 3, 4, 5, 6, 7, 8] =
     Some [0x42, 0x12, 0x39, 0x8D, 0x0D, 0, 0, 0]"
    by (rule decrypt_good_temperature)
  have v2: "isValidReading [0x42, 0x12, 0x39, 0x8D, 0x0D, 0, 0, 0] = Some True"
    by (simp add: isValidReading_def)
  have m2: "(False \<and> [0x42, 0x12, 0x39, 0x8D, 0x0D, 0, 0, 0] = [0x78, 0xA1, 0x33, 0xBE, 0xCE, 0x9D, 0x9A, 0x1C :: byte]) \<or>
            (\<not> False \<and> decryptReading [0x78, 0xA1, 0x33, 0xBE, 0xCE, 0x9D, 0x9A, 0x1C] [1, 2, 3, 4, 5, 6, 7, 8] =
               Some [0x42, 0x12, 0x39, 0x8D, 0x0D, 0, 0, 0] \<and>
             isValidReading [0x42, 0x12, 0x39, 0x8D, 0x0D, 0, 0, 0] = Some True)"
    using d2 v2 by simp
  have r1: "reading_value [0x50, 0x02, 0x0F, 0xAA, 0xBB, 0xCC, 0xDD, 0xEE] = 527"
    by (simp add: reading_value_def)
  have r2: "reading_value [0x42, 0x12, 0x39, 0x8D, 0x0D, 0, 0, 0] = 4665"
    by (simp add: reading_value_def)
  from kind_dispatch [OF l1 m1, of real_of_int "\<lparr>co2 = 400, temperature = 21\<rparr>" initial_atomics]
  have a: "co2 (fst (snd (getReadings_body real_of_int (Frame [0x50, 0x02, 0x0F, 0xAA, 0xBB, 0xCC, 0xDD, 0xEE])
                    [1, 2, 3, 4, 5, 6, 7, 8] \<lparr>co2 = 400, temperature = 21\<rparr> True))) = 527 \<and>
   temperature (fst (snd (getReadings_body real_of_int (Frame [0x50, 0x02, 0x0F, 0xAA, 0xBB, 0xCC, 0xDD, 0xEE])
                    [1, 2, 3, 4, 5, 6, 7, 8] \<lparr>co2 = 400, temperature = 21\<rparr> True))) = 21"
    by (auto simp: r1)
  from kind_dispatch [OF l2 m2, of real_of_int initial_envState "\<lparr>co2_atomic = 400, raw_temperature = 4700\<rparr>"]
  have b: "sint (raw_temperature (fst (snd (getReadings_atomic_body (Frame [0x78, 0xA1, 0x33, 0xBE, 0xCE, 0x9D, 0x9A, 0x1C])
                    [1, 2, 3, 4, 5, 6, 7, 8] \<lparr>co2_atomic = 400, raw_temperature = 4700\<rparr> False)))) = 4665 \<and>
   co2_atomic (fst (snd (getReadings_atomic_body (Frame [0x78, 0xA1, 0x33, 0xBE, 0xCE, 0x9D, 0x9A, 0x1C])
                    [1, 2, 3, 4, 5, 6, 7, 8] \<lparr>co2_atomic = 400, raw_temperature = 4700\<rparr> False))) = 400"
    by (auto simp: r2)
  from l1 l2 d2 v2 a b show ?thesis by blast
qed

text \<open>
  C7. With \<open>skipDecryption\<close> true, a pass over any 8-byte raw frame goes on running and
  dispatches on byte 0 as the kind code and on the big-endian unsigned 16-bit number of
  bytes 1 and 2 as the value, whatever the key and whatever the other bytes are: nothing is
  decoded and nothing is checked. A raw frame that begins \<open>0x50, 0x02, 0x0F\<close> stores
  CO2 = 527.
\<close>

theorem skip_decryption_path:
  assumes "length buffer = 8"
  shows "getReadings_body celsius (Frame buffer) key s True =
           (Running, dispatch celsius (buffer ! 0) (reading_value buffer) s, []) \<and>
         (\<exists>v. getReadings_atomic_body (Frame buffer) key g True =
                 (Running, dispatch_atomic (buffer ! 0) v g, []) \<and>
               sint v = reading_value buffer) \<and>
         (buffer ! 0 = 0x50 \<and> buffer ! 1 = 0x02 \<and> buffer ! 2 = 0x0F \<longrightarrow>
            co2 (fst (snd (getReadings_body celsius (Frame buffer) key s True))) = 527 \<and>
            temperature (fst (snd (getReadings_body celsius (Frame buffer) key s True))) = temperature s \<and>
            sint (co2_atomic (fst (snd (getReadings_atomic_body (Frame buffer) key g True)))) = 527)"
proof -
  from decodeFrame_skip [OF assms, of key] obtain v
    where d: "decodeFrame key True buffer = Measured (buffer ! 0) v"
      and v: "uint v = reading_value buffer"
    by blast
  have a: "sint (ucast v :: 32 word) = reading_value buffer"
    using v by (simp add: sint_ucast_16_32)
  have body: "getReadings_body celsius (Frame buffer) key s True =
           (Running, dispatch celsius (buffer ! 0) (reading_value buffer) s, [])"
    using d v by (simp add: getReadings_body_def)
  have abody: "getReadings_atomic_body (Frame buffer) key g True =
           (Running, dispatch_atomic (buffer ! 0) (ucast v) g, [])"
    using d by (simp add: getReadings_atomic_body_def)
  have ex: "buffer ! 0 = 0x50 \<and> buffer ! 1 = 0x02 \<and> buffer ! 2 = 0x0F \<longrightarrow>
            co2 (fst (snd (getReadings_body celsius (Frame buffer) key s True))) = 527 \<and>
            temperature (fst (snd (getReadings_body celsius (Frame buffer) key s True))) = temperature s \<and>
            sint (co2_atomic (fst (snd (getReadings_atomic_body (Frame buffer) key g True)))) = 527"
  proof
    assume h: "buffer ! 0 = 0x50 \<and> buffer ! 1 = 0x02 \<and> buffer ! 2 = 0x0F"
    then have r: "reading_value buffer = 527" by (simp add: reading_value_def)
    from h r a show "co2 (fst (snd (getReadings_body celsius (Frame buffer) key s True))) = 527 \<and>
            temperature (fst (snd (getReadings_body celsius (Frame buffer) key s True))) = temperature s \<and>
            sint (co2_atomic (fst (snd (getReadings_atomic_body (Frame buffer) key g True)))) = 527"
      by (simp add: body abody dispatch_def dispatch_atomic_def setCo2_def)
  qed
  from body abody a ex show ?thesis by blast
qed

theorem skip_decryption_path_witness:
  "length [0x50, 0x02, 0x0F, 0xAA, 0xBB, 0xCC, 0xDD, 0xEE :: byte] = 8 \<and>
   isValidReading [0x50, 0x02, 0x0F, 0xAA, 0xBB, 0xCC, 0xDD, 0xEE] = Some False \<and>
   getReadings_body real_of_int (Frame [0x50, 0x02, 0x0F, 0xAA, 0xBB, 0xCC, 0xDD, 0xEE])
     [1, 2, 3, 4, 5, 6, 7, 8] initial_envState True = (Running, \<lparr>co2 = 527, temperature = 0\<rparr>, []) \<and>
   sint (co2_atomic (fst (snd (getReadings_atomic_body (Frame [0x50, 0x02, 0x0F, 0xAA, 0xBB, 0xCC, 0xDD, 0xEE])
     [1, 2, 3, 4, 5, 6, 7, 8] initial_atomics True)))) = 527"
proof -
  have l: "length [0x50, 0x02, 0x0F, 0xAA, 0xBB, 0xCC, 0xDD, 0xEE :: byte] = 8" by simp
  have i: "isValidReading [0x50, 0x02, 0x0F, 0xAA, 0xBB, 0xCC, 0xDD, 0xEE] = Some False"
    by (simp add: isValidReading_def)
  have r: "reading_value [0x50, 0x02, 0x0F, 0xAA, 0xBB, 0xCC, 0xDD, 0xEE] = 527"
    by (simp add: reading_value_def)
  from skip_decryption_path [OF l, of real_of_int "[1, 2, 3, 4, 5, 6, 7, 8]" initial_envState initial_atomics]
  have "getReadings_body real_of_int (Frame [0x50, 0x02, 0x0F, 0xAA, 0xBB, 0xCC, 0xDD, 0xEE])
     [1, 2, 3, 4, 5, 6, 7, 8] initial_envState True = (Running, \<lparr>co2 = 527, temperature = 0\<rparr>, []) \<and>
   sint (co2_atomic (fst (snd (getReadings_atomic_body (Frame [0x50, 0x02, 0x0F, 0xAA, 0xBB, 0xCC, 0xDD, 0xEE])
     [1, 2, 3, 4, 5, 6, 7, 8] initial_atomics True)))) = 527"
    by (simp add: r dispatch_def setCo2_def initial_envState_def)
  with l i show ?thesis by blast
qed

section \<open>The state and the validated readings\<close>














section \<open>The state at start\<close>

text \<open>
  C9. Before any measurement has been stored, \<open>Co2()\<close> yields 0 in both files. In
  co2meter\_exporter.go \<open>Temperature()\<close> yields 0 as well. In the second file the stored
  raw temperature is 0 and \<open>Temperature()\<close> yields the conversion of raw value 0: for
  every conversion that is within a hundredth of a degree of \<open>raw/16 - 273.15\<close> at 0,
  that is below zero, not 0.
\<close>

theorem initial_getters:
  "Co2 initial_envState = 0 \<and> Temperature initial_envState = 0 \<and>
   Co2_atomic initial_atomics = 0 \<and> raw_temperature initial_atomics = 0 \<and>
   Temperature_atomic celsius initial_atomics = celsius 0 \<and>
   (\<bar>celsius 0 - (0 / 16 - 273.15)\<bar> \<le> 0.01 \<longrightarrow> Temperature_atomic celsius initial_atomics < 0)"
proof -
  have t: "Temperature_atomic celsius initial_atomics = celsius 0"
    by (simp add: Temperature_atomic_def initial_atomics_def)
  have "celsius 0 < 0" if "\<bar>celsius 0 - (0 / 16 - 273.15)\<bar> \<le> 0.01"
  proof -
    from that have "celsius 0 - (0 / 16 - 273.15) \<le> 0.01" by (rule abs_le_D1)
    then show ?thesis by simp
  qed
  with t show ?thesis
    by (simp add: Co2_def Temperature_def Co2_atomic_def initial_envState_def initial_atomics_def)
qed

theorem initial_getters_witness:
  "\<bar>(real_of_int 0 / 16 - 273.15) - (0 / 16 - 273.15)\<bar> \<le> 0.01 \<and>
   Temperature_atomic (\<lambda>v. real_of_int v / 16 - 273.15) initial_atomics = - 273.15 \<and>
   Temperature_atomic (\<lambda>v. real_of_int v / 16 - 273.15) initial_atomics < 0"
proof -
  have h: "\<bar>(real_of_int 0 / 16 - 273.15) - (0 / 16 - 273.15)\<bar> \<le> 0.01" by simp
  from initial_getters [of "\<lambda>v. real_of_int v / 16 - 273.15"] h
  show ?thesis by simp
qed

end
